theory Spec2Isabelle
  imports Complex_Main "HOL-Library.Multiset"
begin

section \<open>Text\<close>

text \<open>
  A Python \<open>str\<close> is a sequence of Unicode code points. The vocabulary is Japanese and
  the user interface Korean, so a string is modelled as the list of its code points; the
  literals of \<open>app.py\<close> are written out as such lists.
\<close>

type_synonym ustr = "nat list"

text \<open>\<open>str.isspace\<close> for one code point: the whitespace table of CPython.\<close>

definition isspace :: "nat \<Rightarrow> bool" where
  "isspace c =
     ((9 \<le> c \<and> c \<le> 13) \<or> (28 \<le> c \<and> c \<le> 32) \<or> c = 133 \<or> c = 160 \<or> c = 5760 \<or>
      (8192 \<le> c \<and> c \<le> 8202) \<or> c = 8232 \<or> c = 8233 \<or> c = 8239 \<or> c = 8287 \<or>
      c = 12288)"

text \<open>\<open>str.strip()\<close>: leading and trailing whitespace removed.\<close>

definition strip :: "ustr \<Rightarrow> ustr" where
  "strip s = rev (dropWhile isspace (rev (dropWhile isspace s)))"

text \<open>The literals of the source.\<close>

definition no_words_text :: ustr where
  "no_words_text = [45800, 50612, 32, 47785, 47197, 51060, 32, 50630, 49845, 45768, 45796, 46]"

definition loaded_text :: ustr where
  "loaded_text = [45800, 50612, 47484, 32, 48520, 47084, 50772, 49845, 45768, 45796, 46, 32,
     51116, 49373, 51012, 32, 45580, 47084, 32, 49884, 51089, 54616, 49464, 50836, 46]"

definition pause_text :: ustr where
  "pause_text = [51068, 49884, 51221, 51648]"

definition play_text :: ustr where
  "play_text = [51116, 49373]"




definition header_error_text :: ustr where
  "header_error_text = [67, 83, 86, 32, 54756, 45908, 45716, 32, 119, 111, 114, 100, 44, 32,
     114, 101, 97, 100, 105, 110, 103, 44, 32, 109, 101, 97, 110, 105, 110, 103, 32, 51012, 32,
     54252, 54632, 54644, 50556, 32, 54633, 45768, 45796, 46]"

definition word_key :: ustr where
  "word_key = [119, 111, 114, 100]"

definition reading_key :: ustr where
  "reading_key = [114, 101, 97, 100, 105, 110, 103]"

definition meaning_key :: ustr where
  "meaning_key = [109, 101, 97, 110, 105, 110, 103]"

section \<open>Errors\<close>

text \<open>
  The exceptions the modelled functions raise. \<open>ValueError\<close> carries its message;
  \<open>ReadError\<close> stands for whatever the file or the \<open>csv\<close> module raises while a
  source is being read (a decoding error, \<open>csv.Error\<close>, \<open>OSError\<close>).
\<close>

datatype error = IndexError | FileNotFoundError | ValueError ustr | ReadError

section \<open>Data model\<close>

record WordEntry =
  word :: ustr
  reading :: ustr
  meaning :: ustr

datatype stage = Word | Meaning

text \<open>The two bound methods handed to \<open>after\<close>.\<close>

datatype callback = Reveal | Advance

text \<open>
  The configuration is a \<open>Dict[str, int | bool]\<close> whose keys are the three literals of
  \<open>DEFAULT_CONFIG\<close>. A key may be absent: the engine reads the dictionary with
  \<open>.get(key, default)\<close>.
\<close>

datatype cfgkey = ShowMeaningTimer | NextWordTimer | AlwaysOnTop

datatype cfgval = IntV int | BoolV bool

type_synonym config = "cfgkey \<Rightarrow> cfgval option"

text \<open>\<open>int(v)\<close> and \<open>bool(v)\<close> on a configuration value (\<open>bool\<close> is a subclass of \<open>int\<close>).\<close>

fun int_of_val :: "cfgval \<Rightarrow> int" where
  "int_of_val (IntV n) = n"
| "int_of_val (BoolV b) = (if b then 1 else 0)"

fun bool_of_val :: "cfgval \<Rightarrow> bool" where
  "bool_of_val (IntV n) = (n \<noteq> 0)"
| "bool_of_val (BoolV b) = b"

definition cfg_get :: "config \<Rightarrow> cfgkey \<Rightarrow> cfgval \<Rightarrow> cfgval" where
  "cfg_get c k d = (case c k of None \<Rightarrow> d | Some v \<Rightarrow> v)"

definition DEFAULT_CONFIG :: config where
  "DEFAULT_CONFIG =
     [ShowMeaningTimer \<mapsto> IntV 3, NextWordTimer \<mapsto> IntV 5, AlwaysOnTop \<mapsto> BoolV True]"

text \<open>What \<open>messagebox\<close> is asked to show by the engine.\<close>

datatype dialog = DefaultLoadFailed error | LoadFailed error | NoWordsInFile

text \<open>
  The application object together with the parts of its environment that its handlers
  act on: the Tk timer queue (\<open>timers\<close>, each entry a handle, a delay in milliseconds and
  the callback; \<open>next_job\<close> numbers the handles \<open>after#n\<close>), the configuration last
  written to \<open>CONFIG_PATH\<close> by \<open>save_config\<close> (\<open>None\<close> while nothing has been written),
  the dialogs shown, and the random generator (\<open>rand\<close> is the sequence of raw draws,
  \<open>rand_pos\<close> the number of draws consumed).
\<close>

record app =
  config_data :: config
  words :: "WordEntry list"
  current_index :: nat
  paused :: bool
  pending_jobs :: "nat list"
  stage :: stage
  word_label :: ustr
  reading_label :: ustr
  meaning_label :: ustr
  pause_button :: ustr
  topmost :: bool
  timers :: "(nat \<times> int \<times> callback) list"
  next_job :: nat
  written_config :: "config option"
  dialogs :: "dialog list"
  rand :: "nat \<Rightarrow> nat"
  rand_pos :: nat

section \<open>\<open>random.shuffle\<close>\<close>

text \<open>
  \<open>random.shuffle(x)\<close> of the standard library is the Fisher-Yates loop
  \<^verbatim>\<open>for i in reversed(range(1, len(x))): j = randbelow(i + 1); x[i], x[j] = x[j], x[i]\<close>.
  The draw \<open>randbelow(n)\<close> is the next raw draw reduced modulo \<open>n\<close>.
\<close>

definition swap :: "nat \<Rightarrow> nat \<Rightarrow> 'a list \<Rightarrow> 'a list" where
  "swap i j xs = xs[i := xs ! j, j := xs ! i]"

fun shuffle_loop :: "(nat \<Rightarrow> nat) \<Rightarrow> nat \<Rightarrow> nat \<Rightarrow> 'a list \<Rightarrow> 'a list" where
  "shuffle_loop rnd p 0 xs = xs"
| "shuffle_loop rnd p (Suc k) xs =
     shuffle_loop rnd (Suc p) k (swap (Suc k) (rnd p mod (Suc k + 1)) xs)"

definition shuffle :: "(nat \<Rightarrow> nat) \<Rightarrow> nat \<Rightarrow> 'a list \<Rightarrow> 'a list" where
  "shuffle rnd p xs = shuffle_loop rnd p (length xs - 1) xs"

text \<open>\<open>random.shuffle(self.words)\<close> on the application.\<close>

definition shuffle_words :: "app \<Rightarrow> app" where
  "shuffle_words s =
     s\<lparr>words := shuffle (rand s) (rand_pos s) (words s),
       rand_pos := rand_pos s + (length (words s) - 1)\<rparr>"

section \<open>The timer port\<close>

text \<open>\<open>self.after(delay_ms, callback)\<close> queues a callback and returns its handle.\<close>

definition after :: "int \<Rightarrow> callback \<Rightarrow> app \<Rightarrow> nat \<times> app" where
  "after delay_ms cb s =
     (next_job s, s\<lparr>timers := timers s @ [(next_job s, delay_ms, cb)], next_job := Suc (next_job s)\<rparr>)"

text \<open>
  \<open>self.after_cancel(job)\<close> removes the callback if it is still queued; for a handle
  that is not queued any more nothing changes (a \<open>TclError\<close> would be swallowed).
\<close>

definition after_cancel :: "nat \<Rightarrow> app \<Rightarrow> app" where
  "after_cancel job s = s\<lparr>timers := filter (\<lambda>t. fst t \<noteq> job) (timers s)\<rparr>"

definition cancel_pending_jobs :: "app \<Rightarrow> app" where
  "cancel_pending_jobs s = (fold after_cancel (pending_jobs s) s)\<lparr>pending_jobs := []\<rparr>"

section \<open>The cycle\<close>

definition show_current_word :: "app \<Rightarrow> error + app" where
  "show_current_word s0 =
     (let s = cancel_pending_jobs s0 in
      if words s = [] then
        Inr (s\<lparr>word_label := no_words_text, reading_label := [], meaning_label := []\<rparr>)
      else if length (words s) \<le> current_index s then Inl IndexError
      else
        let entry = words s ! current_index s;
            s1 = s\<lparr>word_label := word entry, reading_label := [], meaning_label := [],
                   stage := Word\<rparr>
        in if \<not> paused s1 then
             let delay_ms = max 0 (int_of_val (cfg_get (config_data s1) ShowMeaningTimer (IntV 0))) * 1000;
                 (job, s2) = after delay_ms Reveal s1
             in Inr (s2\<lparr>pending_jobs := pending_jobs s2 @ [job]\<rparr>)
           else Inr s1)"

definition reveal_current_word :: "app \<Rightarrow> error + app" where
  "reveal_current_word s =
     (if words s = [] then Inr s
      else if length (words s) \<le> current_index s then Inl IndexError
      else
        let entry = words s ! current_index s;
            s1 = s\<lparr>reading_label := reading entry, meaning_label := meaning entry,
                   stage := Meaning\<rparr>
        in if \<not> paused s1 then
             let delay_ms = max 0 (int_of_val (cfg_get (config_data s1) NextWordTimer (IntV 0))) * 1000;
                 (job, s2) = after delay_ms Advance s1
             in Inr (s2\<lparr>pending_jobs := pending_jobs s2 @ [job]\<rparr>)
           else Inr s1)"

definition advance_to_next_word :: "app \<Rightarrow> error + app" where
  "advance_to_next_word s =
     (if words s = [] then Inr s
      else
        let s1 = s\<lparr>current_index := (current_index s + 1) mod length (words s)\<rparr>;
            s2 = (if current_index s1 = 0 then shuffle_words s1 else s1)
        in show_current_word s2)"

definition toggle_pause :: "app \<Rightarrow> error + app" where
  "toggle_pause s =
     (if paused s then show_current_word (s\<lparr>paused := False, pause_button := pause_text\<rparr>)
      else Inr (cancel_pending_jobs (s\<lparr>paused := True, pause_button := play_text\<rparr>)))"

definition apply_topmost_setting :: "app \<Rightarrow> app" where
  "apply_topmost_setting s =
     s\<lparr>topmost := bool_of_val (cfg_get (config_data s) AlwaysOnTop (BoolV True))\<rparr>"

definition save_config :: "config \<Rightarrow> app \<Rightarrow> app" where
  "save_config c s = s\<lparr>written_config := Some c\<rparr>"

definition update_config :: "config \<Rightarrow> app \<Rightarrow> error + app" where
  "update_config c s =
     (let s1 = apply_topmost_setting (save_config c (s\<lparr>config_data := c\<rparr>))
      in if \<not> paused s1 then show_current_word s1 else Inr s1)"

section \<open>Loading a deck\<close>

text \<open>
  A deck source is what \<open>csv.reader\<close> yields for the file, one item per call of
  \<open>next\<close>: a record (the list of its fields) or an exception raised while reading.
  \<open>None\<close> is a path that does not exist.
\<close>

datatype csv_item = Fields "ustr list" | Raises

type_synonym csv_source = "csv_item list option"

text \<open>
  The dictionary \<open>csv.DictReader\<close> builds for a record: \<open>dict(zip(fieldnames, row))\<close>,
  then \<open>restval = None\<close> under every field name the record is too short for. The surplus of
  a record that is too long goes under the key \<open>None\<close>, which no string key reads.
\<close>

definition dict_row :: "ustr list \<Rightarrow> ustr list \<Rightarrow> (ustr \<Rightarrow> ustr option option)" where
  "dict_row fieldnames row =
     (let d = fold (\<lambda>(k, v) m. m(k \<mapsto> Some v)) (zip fieldnames row) Map.empty
      in if length row < length fieldnames
         then fold (\<lambda>k m. m(k \<mapsto> None)) (drop (length row) fieldnames) d
         else d)"

text \<open>\<open>row.get(key) or ""\<close>.\<close>

definition get_or_empty :: "(ustr \<Rightarrow> ustr option option) \<Rightarrow> ustr \<Rightarrow> ustr" where
  "get_or_empty d k = (case d k of Some (Some v) \<Rightarrow> v | _ \<Rightarrow> [])"

text \<open>The \<open>for row in reader\<close> loop; \<open>DictReader\<close> skips records without fields.\<close>

fun read_rows :: "ustr list \<Rightarrow> csv_item list \<Rightarrow> WordEntry list \<Rightarrow> error + WordEntry list" where
  "read_rows fieldnames [] entries = Inr entries"
| "read_rows fieldnames (Raises # rest) entries = Inl ReadError"
| "read_rows fieldnames (Fields row # rest) entries =
     (if row = [] then read_rows fieldnames rest entries
      else
        let d = dict_row fieldnames row;
            w = strip (get_or_empty d word_key);
            r = strip (get_or_empty d reading_key);
            m = strip (get_or_empty d meaning_key)
        in if w = [] then read_rows fieldnames rest entries
           else read_rows fieldnames rest (entries @ [\<lparr>word = w, reading = r, meaning = m\<rparr>]))"

definition required_fields :: "ustr set" where
  "required_fields = {word_key, reading_key, meaning_key}"

definition load_words_from_csv :: "csv_source \<Rightarrow> error + WordEntry list" where
  "load_words_from_csv src =
     (case src of
        None \<Rightarrow> Inl FileNotFoundError
      | Some [] \<Rightarrow>
          (if \<not> required_fields \<subseteq> set [] then Inl (ValueError header_error_text) else Inr [])
      | Some (Raises # rest) \<Rightarrow> Inl ReadError
      | Some (Fields fieldnames # rest) \<Rightarrow>
          (if \<not> required_fields \<subseteq> set fieldnames then Inl (ValueError header_error_text)
           else read_rows fieldnames rest []))"

definition load_words_from_path :: "csv_source \<Rightarrow> app \<Rightarrow> error + bool \<times> app" where
  "load_words_from_path src s =
     (case load_words_from_csv src of
        Inl exc \<Rightarrow> Inr (False, s\<lparr>dialogs := dialogs s @ [LoadFailed exc]\<rparr>)
      | Inr entries \<Rightarrow>
          if entries = [] then Inr (False, s\<lparr>dialogs := dialogs s @ [NoWordsInFile]\<rparr>)
          else
            let s1 = shuffle_words (s\<lparr>words := entries\<rparr>);
                s2 = s1\<lparr>current_index := 0\<rparr>
            in if paused s2 then
                 Inr (True, s2\<lparr>word_label := loaded_text, reading_label := [], meaning_label := []\<rparr>)
               else (case show_current_word s2 of
                       Inl e \<Rightarrow> Inl e
                     | Inr s3 \<Rightarrow> Inr (True, s3)))"

section \<open>Configuration\<close>

text \<open>
  What \<open>json.loads\<close> returns. A number with a fraction or an exponent is a float, and the
  parser also accepts the constants \<open>NaN\<close>, \<open>Infinity\<close> and \<open>-Infinity\<close>; a finite float is
  the rational it denotes. An object is its list of members in file order; a later member
  replaces an earlier one of the same name.
\<close>

datatype pyfloat = Finite rat | NaN | PosInf | NegInf

datatype json =
    JNull
  | JBool bool
  | JInt int
  | JFloat pyfloat
  | JStr ustr
  | JArr "json list"
  | JObj "(ustr \<times> json) list"

definition json_get :: "(ustr \<times> json) list \<Rightarrow> ustr \<Rightarrow> json \<Rightarrow> json" where
  "json_get members k d = (case map_of (rev members) k of None \<Rightarrow> d | Some v \<Rightarrow> v)"

text \<open>
  \<open>int(v)\<close>: \<open>None\<close> when it raises. A float is truncated towards zero; what \<open>int\<close> makes
  of a string is the parameter \<open>str_int\<close>.
\<close>

definition truncate :: "rat \<Rightarrow> int" where
  "truncate q = (if 0 \<le> q then \<lfloor>q\<rfloor> else \<lceil>q\<rceil>)"

fun json_int :: "(ustr \<Rightarrow> int option) \<Rightarrow> json \<Rightarrow> int option" where
  "json_int str_int (JInt n) = Some n"
| "json_int str_int (JBool b) = Some (if b then 1 else 0)"
| "json_int str_int (JFloat (Finite q)) = Some (truncate q)"
| "json_int str_int (JFloat f) = None"
| "json_int str_int (JStr s) = str_int s"
| "json_int str_int v = None"

text \<open>\<open>bool(v)\<close>: the truth value of a parsed value; it never raises.\<close>

fun json_bool :: "json \<Rightarrow> bool" where
  "json_bool JNull = False"
| "json_bool (JBool b) = b"
| "json_bool (JInt n) = (n \<noteq> 0)"
| "json_bool (JFloat (Finite q)) = (q \<noteq> 0)"
| "json_bool (JFloat f) = True"
| "json_bool (JStr s) = (s \<noteq> [])"
| "json_bool (JArr xs) = (xs \<noteq> [])"
| "json_bool (JObj ms) = (ms \<noteq> [])"

definition show_meaning_timer_key :: ustr where
  "show_meaning_timer_key =
     [115, 104, 111, 119, 77, 101, 97, 110, 105, 110, 103, 84, 105, 109, 101, 114]"

definition next_word_timer_key :: ustr where
  "next_word_timer_key = [110, 101, 120, 116, 87, 111, 114, 100, 84, 105, 109, 101, 114]"

definition always_on_top_key :: ustr where
  "always_on_top_key = [97, 108, 119, 97, 121, 115, 79, 110, 84, 111, 112]"

text \<open>
  The stored file: \<open>None\<close> when the path does not exist, \<open>Some None\<close> when reading it
  raises, otherwise its text. \<open>loads\<close> is \<open>json.loads\<close>, \<open>None\<close> where it raises.
\<close>

type_synonym stored = "ustr option option"

definition load_config ::
  "(ustr \<Rightarrow> json option) \<Rightarrow> (ustr \<Rightarrow> int option) \<Rightarrow> stored \<Rightarrow> config" where
  "load_config loads str_int file =
     (case file of
        None \<Rightarrow> DEFAULT_CONFIG
      | Some None \<Rightarrow> DEFAULT_CONFIG
      | Some (Some txt) \<Rightarrow>
          (case loads txt of
             Some (JObj data) \<Rightarrow>
               (case json_int str_int (json_get data show_meaning_timer_key (JInt 3)) of
                  None \<Rightarrow> DEFAULT_CONFIG
                | Some a \<Rightarrow>
                    (case json_int str_int (json_get data next_word_timer_key (JInt 5)) of
                       None \<Rightarrow> DEFAULT_CONFIG
                     | Some b \<Rightarrow>
                         [ShowMeaningTimer \<mapsto> IntV a, NextWordTimer \<mapsto> IntV b,
                          AlwaysOnTop \<mapsto> BoolV (json_bool (json_get data always_on_top_key (JBool True)))]))
           | _ \<Rightarrow> DEFAULT_CONFIG))"


section \<open>The application's lifetime\<close>

text \<open>
  \<open>JLPTVocabApp.__init__\<close>, given the configuration \<open>load_config\<close> returned, whether the
  configuration file exists, the default deck source and the random generator.
\<close>

definition startup :: "config \<Rightarrow> bool \<Rightarrow> csv_source \<Rightarrow> (nat \<Rightarrow> nat) \<Rightarrow> error + app" where
  "startup cfg config_exists src rnd =
     (let loaded = load_words_from_csv src;
          s = \<lparr>config_data = cfg,
               words = (case loaded of Inl exc \<Rightarrow> [] | Inr entries \<Rightarrow> entries),
               current_index = 0,
               paused = False,
               pending_jobs = [],
               stage = Word,
               word_label = [],
               reading_label = [],
               meaning_label = [],
               pause_button = pause_text,
               topmost = False,
               timers = [],
               next_job = 0,
               written_config = (if \<not> config_exists then Some cfg else None),
               dialogs = (case loaded of Inl exc \<Rightarrow> [DefaultLoadFailed exc] | Inr entries \<Rightarrow> []),
               rand = rnd,
               rand_pos = 0\<rparr>;
          s1 = shuffle_words s;
          s2 = (if words s1 = [] then s1\<lparr>word_label := no_words_text\<rparr> else s1);
          s3 = apply_topmost_setting s2
      in show_current_word s3)"

text \<open>
  What happens to the application afterwards: the user toggles the pause button, saves a
  configuration, imports a deck, or a queued timer fires. Tk takes a timer out of its queue
  before it runs the callback; a handle that is not queued cannot fire.
\<close>

datatype event = TogglePause | UpdateConfig config | LoadWords csv_source | Fire nat

definition fire :: "nat \<Rightarrow> app \<Rightarrow> error + app" where
  "fire job s =
     (case find (\<lambda>t. fst t = job) (timers s) of
        None \<Rightarrow> Inr s
      | Some (h, delay_ms, cb) \<Rightarrow>
          (let s1 = s\<lparr>timers := filter (\<lambda>t. fst t \<noteq> job) (timers s)\<rparr>
           in case cb of
                Reveal \<Rightarrow> reveal_current_word s1
              | Advance \<Rightarrow> advance_to_next_word s1))"

fun step :: "event \<Rightarrow> app \<Rightarrow> error + app" where
  "step TogglePause s = toggle_pause s"
| "step (UpdateConfig c) s = update_config c s"
| "step (LoadWords src) s = map_sum id snd (load_words_from_path src s)"
| "step (Fire job) s = fire job s"

fun run :: "event list \<Rightarrow> app \<Rightarrow> error + app" where
  "run [] s = Inr s"
| "run (e # es) s = (case step e s of Inl x \<Rightarrow> Inl x | Inr s' \<Rightarrow> run es s')"

section \<open>Sample decks and states\<close>

text \<open>
  Three entries and a freshly constructed application state over a given configuration and
  deck, used to evaluate the functions above on concrete inputs.
\<close>

definition neko :: WordEntry where
  "neko = \<lparr>word = [29483], reading = [12397, 12371], meaning = [99, 97, 116]\<rparr>"

definition inu :: WordEntry where
  "inu = \<lparr>word = [29356], reading = [12356, 12396], meaning = [100, 111, 103]\<rparr>"

definition tori :: WordEntry where
  "tori = \<lparr>word = [40165], reading = [12392, 12426], meaning = [98, 105, 114, 100]\<rparr>"

definition sample_app :: "config \<Rightarrow> WordEntry list \<Rightarrow> app" where
  "sample_app cfg ws =
     \<lparr>config_data = cfg, words = ws, current_index = 0, paused = False, pending_jobs = [],
      stage = Word, word_label = [], reading_label = [], meaning_label = [],
      pause_button = pause_text, topmost = True, timers = [], next_job = 0,
      written_config = None, dialogs = [], rand = (\<lambda>k. k), rand_pos = 0\<rparr>"


text \<open>Repeated advancing, and the entries shown on the way.\<close>

fun advance_n :: "nat \<Rightarrow> app \<Rightarrow> error + app" where
  "advance_n 0 s = Inr s"
| "advance_n (Suc k) s =
     (case advance_to_next_word s of Inl e \<Rightarrow> Inl e | Inr s' \<Rightarrow> advance_n k s')"

fun visited :: "nat \<Rightarrow> app \<Rightarrow> WordEntry list" where
  "visited 0 s = []"
| "visited (Suc k) s =
     (words s ! current_index s) #
     (case advance_to_next_word s of Inl e \<Rightarrow> [] | Inr s' \<Rightarrow> visited k s')"

text \<open>The invariant of the timer queue, and a whole run of the application.\<close>

definition timer_inv :: "app \<Rightarrow> bool" where
  "timer_inv s =
     (length (timers s) \<le> 1 \<and>
      fst ` set (timers s) \<subseteq> set (pending_jobs s) \<and>
      distinct (pending_jobs s) \<and>
      (\<forall>j\<in>set (pending_jobs s). j < next_job s) \<and>
      (paused s \<longrightarrow> timers s = []) \<and>
      (words s = [] \<or> current_index s < length (words s)))"

definition lifetime ::
  "config \<Rightarrow> bool \<Rightarrow> csv_source \<Rightarrow> (nat \<Rightarrow> nat) \<Rightarrow> event list \<Rightarrow> error + app" where
  "lifetime cfg config_exists src rnd evs =
     (case startup cfg config_exists src rnd of Inl e \<Rightarrow> Inl e | Inr s \<Rightarrow> run evs s)"

fun successful_load :: "event \<Rightarrow> bool" where
  "successful_load (LoadWords src) =
     (case load_words_from_csv src of Inl e \<Rightarrow> False | Inr entries \<Rightarrow> entries \<noteq> [])"
| "successful_load e = False"

text \<open>A source with the header and the one entry of the sample deck.\<close>

definition neko_source :: csv_source where
  "neko_source =
     Some [Fields [word_key, reading_key, meaning_key],
           Fields [[29483], [12397, 12371], [99, 97, 116]]]"

text \<open>
  The deck the specification describes for an accepted source: every row whose word field
  is empty after trimming is dropped, every other row becomes an entry with word, reading
  and meaning trimmed.
\<close>

definition column :: "ustr list \<Rightarrow> ustr list \<Rightarrow> ustr \<Rightarrow> ustr" where
  "column fieldnames row k = get_or_empty (dict_row fieldnames row) k"

definition entries_by_spec :: "ustr list \<Rightarrow> ustr list list \<Rightarrow> WordEntry list" where
  "entries_by_spec fieldnames rows =
     map (\<lambda>row. \<lparr>word = strip (column fieldnames row word_key),
                  reading = strip (column fieldnames row reading_key),
                  meaning = strip (column fieldnames row meaning_key)\<rparr>)
       (filter (\<lambda>row. strip (column fieldnames row word_key) \<noteq> []) rows)"


text \<open>
  One function that \<open>int\<close> agrees with on the strings it accepts: an optional sign followed
  by ASCII decimal digits. It stands in for the parameter \<open>str_int\<close> where the functions
  are evaluated on concrete inputs.
\<close>

fun digits_value :: "int \<Rightarrow> ustr \<Rightarrow> int option" where
  "digits_value acc [] = Some acc"
| "digits_value acc (c # cs) =
     (if 48 \<le> c \<and> c \<le> 57 then digits_value (10 * acc + int (c - 48)) cs else None)"

definition ascii_int :: "ustr \<Rightarrow> int option" where
  "ascii_int s =
     (case s of
        [] \<Rightarrow> None
      | c # cs \<Rightarrow>
          if cs = [] then digits_value 0 [c]
          else if c = 45 then map_option uminus (digits_value 0 cs)
          else if c = 43 then digits_value 0 cs
          else digits_value 0 s)"


text \<open>A \<open>json.loads\<close> whose outcome on the stored text is the given one.\<close>

definition loads_as :: "json option \<Rightarrow> ustr \<Rightarrow> json option" where
  "loads_as outcome content = outcome"

section \<open>The handlers in closed form\<close>

lemma fold_after_cancel:
  "fold after_cancel js s = s\<lparr>timers := filter (\<lambda>t. fst t \<notin> set js) (timers s)\<rparr>"
proof (induction js arbitrary: s)
  case Nil
  show ?case by simp
next
  case (Cons j js)
  have "fold after_cancel (j # js) s = fold after_cancel js (after_cancel j s)"
    by simp
  also have "\<dots> = (after_cancel j s)\<lparr>timers := filter (\<lambda>t. fst t \<notin> set js) (timers (after_cancel j s))\<rparr>"
    by (rule Cons.IH)
  also have "\<dots> = s\<lparr>timers := filter (\<lambda>t. fst t \<notin> set (j # js)) (timers s)\<rparr>"
    by (simp add: after_cancel_def conj_commute)
  finally show ?case .
qed

lemma cancel_pending_jobs_eq:
  "cancel_pending_jobs s =
     s\<lparr>timers := filter (\<lambda>t. fst t \<notin> set (pending_jobs s)) (timers s), pending_jobs := []\<rparr>"
  by (simp add: cancel_pending_jobs_def fold_after_cancel)

lemma show_current_word_empty:
  "words s = [] \<Longrightarrow>
   show_current_word s =
     Inr (s\<lparr>timers := filter (\<lambda>t. fst t \<notin> set (pending_jobs s)) (timers s), pending_jobs := [],
            word_label := no_words_text, reading_label := [], meaning_label := []\<rparr>)"
  by (simp add: show_current_word_def cancel_pending_jobs_eq)

lemma show_current_word_running:
  "words s \<noteq> [] \<Longrightarrow> current_index s < length (words s) \<Longrightarrow> \<not> paused s \<Longrightarrow>
   show_current_word s =
     Inr (s\<lparr>timers := filter (\<lambda>t. fst t \<notin> set (pending_jobs s)) (timers s) @
                      [(next_job s, max 0 (int_of_val (cfg_get (config_data s) ShowMeaningTimer (IntV 0))) * 1000, Reveal)],
            pending_jobs := [next_job s],
            word_label := word (words s ! current_index s), reading_label := [], meaning_label := [],
            stage := Word, next_job := Suc (next_job s)\<rparr>)"
  by (simp add: show_current_word_def cancel_pending_jobs_eq after_def Let_def)

lemma show_current_word_paused:
  "words s \<noteq> [] \<Longrightarrow> current_index s < length (words s) \<Longrightarrow> paused s \<Longrightarrow>
   show_current_word s =
     Inr (s\<lparr>timers := filter (\<lambda>t. fst t \<notin> set (pending_jobs s)) (timers s),
            pending_jobs := [],
            word_label := word (words s ! current_index s), reading_label := [], meaning_label := [],
            stage := Word\<rparr>)"
  by (simp add: show_current_word_def cancel_pending_jobs_eq after_def Let_def)

lemma reveal_current_word_running:
  "words s \<noteq> [] \<Longrightarrow> current_index s < length (words s) \<Longrightarrow> \<not> paused s \<Longrightarrow>
   reveal_current_word s =
     Inr (s\<lparr>timers := timers s @
                      [(next_job s, max 0 (int_of_val (cfg_get (config_data s) NextWordTimer (IntV 0))) * 1000, Advance)],
            pending_jobs := pending_jobs s @ [next_job s],
            reading_label := reading (words s ! current_index s),
            meaning_label := meaning (words s ! current_index s),
            stage := Meaning, next_job := Suc (next_job s)\<rparr>)"
  by (simp add: reveal_current_word_def after_def Let_def)

lemma reveal_current_word_paused:
  "words s \<noteq> [] \<Longrightarrow> current_index s < length (words s) \<Longrightarrow> paused s \<Longrightarrow>
   reveal_current_word s =
     Inr (s\<lparr>reading_label := reading (words s ! current_index s),
            meaning_label := meaning (words s ! current_index s),
            stage := Meaning\<rparr>)"
  by (simp add: reveal_current_word_def after_def Let_def)

section \<open>Properties\<close>

text \<open>
  Claim C10. Whatever integers the configuration holds for \<open>showMeaningTimer\<close> and
  \<open>nextWordTimer\<close>, negative ones included, the delay handed to \<open>after\<close> is
  \<open>max(0, value) * 1000\<close> milliseconds: \<open>show_current_word\<close> queues the reveal with the
  first, \<open>reveal_current_word\<close> queues the advance with the second, and neither delay is
  negative.
\<close>

theorem scheduled_delay_never_negative:
  assumes "words s \<noteq> []" and "current_index s < length (words s)" and "\<not> paused s"
    and "config_data s ShowMeaningTimer = Some (IntV v)"
    and "config_data s NextWordTimer = Some (IntV w)"
  shows "\<exists>s1 s2.
           show_current_word s = Inr s1 \<and>
           timers s1 = filter (\<lambda>t. fst t \<notin> set (pending_jobs s)) (timers s) @
                         [(next_job s, max 0 v * 1000, Reveal)] \<and>
           reveal_current_word s = Inr s2 \<and>
           timers s2 = timers s @ [(next_job s, max 0 w * 1000, Advance)] \<and>
           0 \<le> max 0 v * 1000 \<and> 0 \<le> max 0 w * 1000"
  using assms
  by (simp add: show_current_word_running reveal_current_word_running cfg_get_def)

theorem scheduled_delay_never_negative_witness:
  "\<exists>s1 s2.
     show_current_word (sample_app [ShowMeaningTimer \<mapsto> IntV (- 5), NextWordTimer \<mapsto> IntV 2] [neko]) = Inr s1 \<and>
     timers s1 = [(0, 0, Reveal)] \<and>
     reveal_current_word (sample_app [ShowMeaningTimer \<mapsto> IntV (- 5), NextWordTimer \<mapsto> IntV 2] [neko]) = Inr s2 \<and>
     timers s2 = [(0, 2000, Advance)]"
  using scheduled_delay_never_negative
    [of "sample_app [ShowMeaningTimer \<mapsto> IntV (- 5), NextWordTimer \<mapsto> IntV 2] [neko]" "- 5" 2]
  by (simp add: sample_app_def)

text \<open>
  Claim C3. On a running engine with a non-empty deck and a valid index, two presses of
  the pause button in a row (pause, then resume) end with \<open>paused = False\<close> and the stage
  \<open>Word\<close>, whatever the stage was when the engine was paused; the pause itself leaves the
  stage alone.
\<close>

theorem pause_resume_restarts_at_word:
  assumes "words s \<noteq> []" and "current_index s < length (words s)" and "\<not> paused s"
  shows "\<exists>s1 s2. toggle_pause s = Inr s1 \<and> paused s1 \<and> stage s1 = stage s \<and>
           toggle_pause s1 = Inr s2 \<and> \<not> paused s2 \<and> stage s2 = Word"
  using assms
  by (simp add: toggle_pause_def cancel_pending_jobs_eq show_current_word_running)

theorem pause_resume_restarts_at_word_witness:
  "\<exists>s1 s2. toggle_pause ((sample_app DEFAULT_CONFIG [neko])\<lparr>stage := Meaning\<rparr>) = Inr s1 \<and>
     paused s1 \<and> stage s1 = Meaning \<and>
     toggle_pause s1 = Inr s2 \<and> \<not> paused s2 \<and> stage s2 = Word"
  using pause_resume_restarts_at_word [of "(sample_app DEFAULT_CONFIG [neko])\<lparr>stage := Meaning\<rparr>"]
  by (simp add: sample_app_def)

text \<open>
  Claim C4. When the source of a deck replacement yields no entry, \<open>load_words_from_path\<close>
  reports the failure (a warning dialog and the result \<open>False\<close>) and the application is
  otherwise exactly as before: the loaded entries, the index and every other field are
  unchanged.
\<close>

theorem empty_replacement_rejected:
  assumes "load_words_from_csv src = Inr []"
  shows "load_words_from_path src s = Inr (False, s\<lparr>dialogs := dialogs s @ [NoWordsInFile]\<rparr>)"
  using assms by (simp add: load_words_from_path_def)

theorem empty_replacement_rejected_witness:
  "load_words_from_csv (Some [Fields [word_key, reading_key, meaning_key], Fields [[32], [99], [99]]]) = Inr [] \<and>
   load_words_from_path (Some [Fields [word_key, reading_key, meaning_key], Fields [[32], [99], [99]]])
       ((sample_app DEFAULT_CONFIG [neko, inu])\<lparr>current_index := 1\<rparr>) =
     Inr (False, (sample_app DEFAULT_CONFIG [neko, inu])\<lparr>current_index := 1, dialogs := [NoWordsInFile]\<rparr>)"
proof -
  have h: "load_words_from_csv (Some [Fields [word_key, reading_key, meaning_key], Fields [[32], [99], [99]]]) = Inr []"
    by (simp add: load_words_from_csv_def required_fields_def dict_row_def get_or_empty_def
        word_key_def reading_key_def meaning_key_def strip_def isspace_def)
  show ?thesis
    using h empty_replacement_rejected [OF h, of "(sample_app DEFAULT_CONFIG [neko, inu])\<lparr>current_index := 1\<rparr>"]
    by (simp add: sample_app_def)
qed

section \<open>The shuffle is a permutation\<close>

lemma length_swap: "length (swap i j xs) = length xs"
  by (simp add: swap_def)

lemma mset_swap_list: "i < length xs \<Longrightarrow> j < length xs \<Longrightarrow> mset (swap i j xs) = mset xs"
  unfolding swap_def by (rule mset_swap)

lemma length_shuffle_loop: "length (shuffle_loop rnd p k xs) = length xs"
  by (induction k arbitrary: p xs) (simp_all add: length_swap)

lemma mset_shuffle_loop: "k < length xs \<Longrightarrow> mset (shuffle_loop rnd p k xs) = mset xs"
proof (induction k arbitrary: p xs)
  case 0
  show ?case by simp
next
  case (Suc k)
  have j: "rnd p mod (Suc k + 1) < length xs"
  proof -
    have "rnd p mod (Suc k + 1) < Suc (Suc k)" by simp
    with Suc.prems show ?thesis by linarith
  qed
  have "mset (swap (Suc k) (rnd p mod (Suc k + 1)) xs) = mset xs"
    using Suc.prems j by (rule mset_swap_list)
  moreover have "k < length (swap (Suc k) (rnd p mod (Suc k + 1)) xs)"
    using Suc.prems by (simp add: length_swap)
  ultimately show ?case using Suc.IH by simp
qed

lemma length_shuffle: "length (shuffle rnd p xs) = length xs"
  by (simp add: shuffle_def length_shuffle_loop)

lemma mset_shuffle: "mset (shuffle rnd p xs) = mset xs"
proof (cases xs)
  case Nil
  then show ?thesis by (simp add: shuffle_def)
next
  case (Cons x ys)
  then show ?thesis by (simp add: shuffle_def mset_shuffle_loop)
qed

lemma shuffle_eq_Nil: "shuffle rnd p xs = [] \<longleftrightarrow> xs = []"
  using length_shuffle [of rnd p xs] by (metis length_0_conv)

lemma show_current_word_total:
  assumes "words s = [] \<or> current_index s < length (words s)"
  shows "\<exists>s'. show_current_word s = Inr s' \<and> words s' = words s \<and>
           current_index s' = current_index s \<and> rand_pos s' = rand_pos s \<and> rand s' = rand s \<and>
           paused s' = paused s \<and> config_data s' = config_data s"
proof (cases "words s = []")
  case True
  then show ?thesis by (simp add: show_current_word_empty)
next
  case False
  with assms have "current_index s < length (words s)" by simp
  with False show ?thesis
    by (cases "paused s") (simp_all add: show_current_word_running show_current_word_paused)
qed

lemma advance_step:
  assumes "words s \<noteq> []"
  shows "\<exists>s'. advance_to_next_word s = Inr s' \<and>
           current_index s' = (current_index s + 1) mod length (words s) \<and>
           words s' = (if current_index s' = 0 then shuffle (rand s) (rand_pos s) (words s)
                       else words s) \<and>
           rand_pos s' = (if current_index s' = 0 then rand_pos s + (length (words s) - 1)
                          else rand_pos s) \<and>
           length (words s') = length (words s) \<and>
           mset (words s') = mset (words s)"
proof -
  let ?i = "(current_index s + 1) mod length (words s)"
  let ?s1 = "s\<lparr>current_index := ?i\<rparr>"
  let ?s2 = "if ?i = 0 then shuffle_words ?s1 else ?s1"
  have adv: "advance_to_next_word s = show_current_word ?s2"
    using assms by (simp add: advance_to_next_word_def Let_def)
  have i: "?i < length (words s)" using assms by simp
  have ok: "words ?s2 = [] \<or> current_index ?s2 < length (words ?s2)"
    using i assms by (simp add: shuffle_words_def length_shuffle)
  from show_current_word_total [OF ok] obtain s' where
    s': "show_current_word ?s2 = Inr s'" "words s' = words ?s2"
      "current_index s' = current_index ?s2" "rand_pos s' = rand_pos ?s2"
    by blast
  have "current_index s' = ?i" using s'(3) by (simp add: shuffle_words_def)
  moreover have "words s' = (if ?i = 0 then shuffle (rand s) (rand_pos s) (words s) else words s)"
    using s'(2) by (simp add: shuffle_words_def)
  moreover have "rand_pos s' = (if ?i = 0 then rand_pos s + (length (words s) - 1) else rand_pos s)"
    using s'(4) by (simp add: shuffle_words_def)
  ultimately show ?thesis
    using adv s'(1) by (simp add: length_shuffle mset_shuffle)
qed

text \<open>
  Claim C5. On a non-empty deck \<open>advance_to_next_word\<close> sets the index to
  \<open>(index + 1) mod length\<close> and reshuffles exactly when that index is 0: then the deck is
  the shuffle of the old one and the generator has made the draws of one shuffle, otherwise
  the deck is untouched and no draw is made. Either way the deck keeps its length and its
  multiset of entries.
\<close>

theorem advance_reshuffles_on_wrap:
  assumes "words s \<noteq> []"
  shows "\<exists>s'. advance_to_next_word s = Inr s' \<and>
           current_index s' = (current_index s + 1) mod length (words s) \<and>
           words s' = (if current_index s' = 0 then shuffle (rand s) (rand_pos s) (words s)
                       else words s) \<and>
           rand_pos s' = (if current_index s' = 0 then rand_pos s + (length (words s) - 1)
                          else rand_pos s) \<and>
           length (words s') = length (words s) \<and>
           mset (words s') = mset (words s)"
  using assms by (rule advance_step)

theorem advance_reshuffles_on_wrap_witness:
  "words ((sample_app DEFAULT_CONFIG [neko, inu, tori])\<lparr>current_index := 2\<rparr>) \<noteq> [] \<and>
   (\<exists>s'. advance_to_next_word ((sample_app DEFAULT_CONFIG [neko, inu, tori])\<lparr>current_index := 2\<rparr>) = Inr s' \<and>
      current_index s' = 0 \<and> words s' = [tori, inu, neko] \<and> rand_pos s' = 2)"
proof -
  let ?s = "(sample_app DEFAULT_CONFIG [neko, inu, tori])\<lparr>current_index := 2\<rparr>"
  have h: "words ?s \<noteq> []"
    by (simp add: sample_app_def)
  from advance_reshuffles_on_wrap [OF h] obtain s' where
    s': "advance_to_next_word ?s = Inr s'"
      "current_index s' = (current_index ?s + 1) mod length (words ?s)"
      "words s' = (if current_index s' = 0 then shuffle (rand ?s) (rand_pos ?s) (words ?s)
                   else words ?s)"
      "rand_pos s' = (if current_index s' = 0 then rand_pos ?s + (length (words ?s) - 1)
                      else rand_pos ?s)"
    by blast
  have i: "current_index s' = 0"
    using s'(2) by (simp add: sample_app_def)
  have w: "words s' = [tori, inu, neko]"
    using s'(3) i by (simp add: sample_app_def shuffle_def swap_def)
  have r: "rand_pos s' = 2"
    using s'(4) i by (simp add: sample_app_def)
  from h s'(1) i w r show ?thesis by blast
qed

lemma advance_inside:
  assumes "words s \<noteq> []" and "Suc (current_index s) < length (words s)"
  shows "\<exists>s'. advance_to_next_word s = Inr s' \<and> current_index s' = Suc (current_index s) \<and>
           words s' = words s"
  using advance_step [OF assms(1)] assms(2) by auto

lemma advance_wraps:
  assumes "words s \<noteq> []" and "Suc (current_index s) = length (words s)"
  shows "\<exists>s'. advance_to_next_word s = Inr s' \<and> current_index s' = 0"
  using advance_step [OF assms(1)] assms(2) by auto

lemma advance_n_inside:
  "words s \<noteq> [] \<Longrightarrow> current_index s + k < length (words s) \<Longrightarrow>
   \<exists>s'. advance_n k s = Inr s' \<and> current_index s' = current_index s + k \<and> words s' = words s"
proof (induction k arbitrary: s)
  case 0
  then show ?case by simp
next
  case (Suc k)
  from Suc.prems have "Suc (current_index s) < length (words s)" by simp
  from advance_inside [OF Suc.prems(1) this] obtain s1 where
    s1: "advance_to_next_word s = Inr s1" "current_index s1 = Suc (current_index s)"
      "words s1 = words s"
    by blast
  have "words s1 \<noteq> []" "current_index s1 + k < length (words s1)"
    using s1 Suc.prems by simp_all
  from Suc.IH [OF this] s1 show ?case by auto
qed

lemma advance_n_wraps:
  "words s \<noteq> [] \<Longrightarrow> current_index s + Suc k = length (words s) \<Longrightarrow>
   \<exists>s'. advance_n (Suc k) s = Inr s' \<and> current_index s' = 0"
proof (induction k arbitrary: s)
  case 0
  then have "Suc (current_index s) = length (words s)" by simp
  from advance_wraps [OF "0.prems"(1) this] show ?case by auto
next
  case (Suc k)
  from Suc.prems have "Suc (current_index s) < length (words s)" by simp
  from advance_inside [OF Suc.prems(1) this] obtain s1 where
    s1: "advance_to_next_word s = Inr s1" "current_index s1 = Suc (current_index s)"
      "words s1 = words s"
    by blast
  have "words s1 \<noteq> []" "current_index s1 + Suc k = length (words s1)"
    using s1 Suc.prems by simp_all
  from Suc.IH [OF this] obtain s' where "advance_n (Suc k) s1 = Inr s'" "current_index s' = 0"
    by blast
  then show ?case using s1(1) by simp
qed

lemma visited_drop:
  "words s \<noteq> [] \<Longrightarrow> current_index s + k = length (words s) \<Longrightarrow>
   visited k s = drop (current_index s) (words s)"
proof (induction k arbitrary: s)
  case 0
  then show ?case by simp
next
  case (Suc k)
  have i: "current_index s < length (words s)" using Suc.prems by simp
  show ?case
  proof (cases k)
    case 0
    then have "drop (Suc (current_index s)) (words s) = []" using Suc.prems by simp
    then have "drop (current_index s) (words s) = [words s ! current_index s]"
      using Cons_nth_drop_Suc [OF i] by simp
    then show ?thesis using 0 by (simp split: sum.splits)
  next
    case (Suc m)
    from Suc.prems Suc have "Suc (current_index s) < length (words s)" by simp
    from advance_inside [OF Suc.prems(1) this] obtain s1 where
      s1: "advance_to_next_word s = Inr s1" "current_index s1 = Suc (current_index s)"
        "words s1 = words s"
      by blast
    have "words s1 \<noteq> []" "current_index s1 + k = length (words s1)"
      using s1 Suc.prems by simp_all
    from Suc.IH [OF this] have "visited k s1 = drop (Suc (current_index s)) (words s)"
      using s1 by simp
    then show ?thesis using s1(1) Cons_nth_drop_Suc [OF i] by simp
  qed
qed

text \<open>
  Claim C2. On a non-empty deck at index 0, the entries shown by \<open>length\<close> successive
  calls of \<open>advance_to_next_word\<close> are the deck itself, each position once and in order;
  after \<open>k < length\<close> calls the index is \<open>k\<close> and the deck is unchanged, and after
  \<open>length\<close> calls the index is 0 again. Every call, on any non-empty deck, sets the index
  to \<open>(index + 1) mod length\<close>.
\<close>

theorem round_robin_complete:
  assumes "words s \<noteq> []" and "current_index s = 0"
  shows "visited (length (words s)) s = words s \<and>
         (\<exists>s'. advance_n (length (words s)) s = Inr s' \<and> current_index s' = 0) \<and>
         (\<forall>k<length (words s). \<exists>s'. advance_n k s = Inr s' \<and> current_index s' = k \<and>
            words s' = words s) \<and>
         (\<forall>t. words t \<noteq> [] \<longrightarrow>
            (\<exists>t'. advance_to_next_word t = Inr t' \<and>
               current_index t' = (current_index t + 1) mod length (words t)))"
proof -
  obtain n where n: "length (words s) = Suc n"
    using assms(1) by (cases "words s") simp_all
  have a: "visited (length (words s)) s = words s"
    using visited_drop [of s "length (words s)"] assms by simp
  have b: "\<exists>s'. advance_n (length (words s)) s = Inr s' \<and> current_index s' = 0"
    using advance_n_wraps [of s n] assms n by simp
  have c: "\<forall>k<length (words s). \<exists>s'. advance_n k s = Inr s' \<and> current_index s' = k \<and>
            words s' = words s"
    using advance_n_inside [of s] assms by simp
  have d: "\<forall>t. words t \<noteq> [] \<longrightarrow>
            (\<exists>t'. advance_to_next_word t = Inr t' \<and>
               current_index t' = (current_index t + 1) mod length (words t))"
    using advance_step by blast
  from a b c d show ?thesis by blast
qed

theorem round_robin_complete_witness:
  "words (sample_app DEFAULT_CONFIG [neko, inu, tori]) \<noteq> [] \<and>
   current_index (sample_app DEFAULT_CONFIG [neko, inu, tori]) = 0 \<and>
   visited 3 (sample_app DEFAULT_CONFIG [neko, inu, tori]) = [neko, inu, tori] \<and>
   (\<exists>s'. advance_n 2 (sample_app DEFAULT_CONFIG [neko, inu, tori]) = Inr s' \<and>
      current_index s' = 2 \<and> words s' = [neko, inu, tori]) \<and>
   (\<exists>s'. advance_n 3 (sample_app DEFAULT_CONFIG [neko, inu, tori]) = Inr s' \<and>
      current_index s' = 0)"
proof -
  let ?s = "sample_app DEFAULT_CONFIG [neko, inu, tori]"
  have h1: "words ?s \<noteq> []" and h2: "current_index ?s = 0"
    by (simp_all add: sample_app_def)
  have n: "length (words ?s) = 3" and w: "words ?s = [neko, inu, tori]"
    by (simp_all add: sample_app_def)
  from round_robin_complete [OF h1 h2] have
    r: "visited (length (words ?s)) ?s = words ?s"
      "\<exists>s'. advance_n (length (words ?s)) ?s = Inr s' \<and> current_index s' = 0"
      "\<forall>k<length (words ?s). \<exists>s'. advance_n k ?s = Inr s' \<and> current_index s' = k \<and>
         words s' = words ?s"
    by blast+
  have a: "visited 3 ?s = [neko, inu, tori]"
    by (rule r(1) [unfolded n, unfolded w])
  have b: "\<exists>s'. advance_n 3 ?s = Inr s' \<and> current_index s' = 0"
    by (rule r(2) [unfolded n])
  have "(2::nat) < 3" by simp
  with r(3) [unfolded n, unfolded w]
  have c: "\<exists>s'. advance_n 2 ?s = Inr s' \<and> current_index s' = 2 \<and> words s' = [neko, inu, tori]"
    by blast
  from h1 h2 a b c show ?thesis by blast
qed

section \<open>The timer invariant\<close>

lemma cancel_all:
  "fst ` set ts \<subseteq> set js \<Longrightarrow> filter (\<lambda>t. fst t \<notin> set js) ts = []"
  by (auto simp: filter_empty_conv)

lemma show_establishes_inv:
  assumes "fst ` set (timers s) \<subseteq> set (pending_jobs s)"
    and "words s = [] \<or> current_index s < length (words s)"
  shows "\<exists>s'. show_current_word s = Inr s' \<and> timer_inv s' \<and> words s' = words s \<and>
           paused s' = paused s"
proof (cases "words s = []")
  case True
  then show ?thesis
    using assms(1) by (simp add: show_current_word_empty cancel_all timer_inv_def)
next
  case False
  with assms(2) have i: "current_index s < length (words s)" by simp
  show ?thesis
  proof (cases "paused s")
    case True
    then show ?thesis
      using False i assms(1) by (simp add: show_current_word_paused cancel_all timer_inv_def)
  next
    case np: False
    then show ?thesis
      using False i assms(1) by (simp add: show_current_word_running cancel_all timer_inv_def)
  qed
qed

lemma reveal_keeps_inv:
  assumes "timer_inv s" and "timers s = []"
  shows "\<exists>s'. reveal_current_word s = Inr s' \<and> timer_inv s'"
proof (cases "words s = []")
  case True
  then show ?thesis using assms(1) by (simp add: reveal_current_word_def)
next
  case False
  with assms(1) have i: "current_index s < length (words s)" by (simp add: timer_inv_def)
  show ?thesis
  proof (cases "paused s")
    case True
    then show ?thesis
      using False i assms by (simp add: reveal_current_word_paused timer_inv_def)
  next
    case np: False
    have "\<forall>j\<in>set (pending_jobs s). j < next_job s" "distinct (pending_jobs s)"
      using assms(1) by (simp_all add: timer_inv_def)
    then show ?thesis
      using np False i assms(2) by (auto simp: reveal_current_word_running timer_inv_def)
  qed
qed

lemma advance_keeps_inv:
  assumes "timer_inv s" and "timers s = []"
  shows "\<exists>s'. advance_to_next_word s = Inr s' \<and> timer_inv s'"
proof (cases "words s = []")
  case True
  then show ?thesis using assms(1) by (simp add: advance_to_next_word_def)
next
  case False
  let ?i = "(current_index s + 1) mod length (words s)"
  let ?s1 = "s\<lparr>current_index := ?i\<rparr>"
  let ?s2 = "if ?i = 0 then shuffle_words ?s1 else ?s1"
  have adv: "advance_to_next_word s = show_current_word ?s2"
    using False by (simp add: advance_to_next_word_def Let_def)
  have i: "?i < length (words s)" using False by simp
  have a: "fst ` set (timers ?s2) \<subseteq> set (pending_jobs ?s2)"
    using assms(2) by (simp add: shuffle_words_def)
  have b: "words ?s2 = [] \<or> current_index ?s2 < length (words ?s2)"
    using i False by (simp add: shuffle_words_def length_shuffle)
  from show_establishes_inv [OF a b] adv show ?thesis by auto
qed

lemma fire_keeps_inv:
  assumes "timer_inv s"
  shows "\<exists>s'. fire job s = Inr s' \<and> timer_inv s'"
proof (cases "find (\<lambda>t. fst t = job) (timers s)")
  case None
  then show ?thesis using assms by (simp add: fire_def)
next
  case (Some t)
  obtain h d cb where t: "t = (h, d, cb)" by (cases t)
  have len: "length (timers s) \<le> 1" using assms by (simp add: timer_inv_def)
  from Some have "t \<in> set (timers s)" "fst t = job"
    by (auto simp: find_Some_iff)
  with len have ts: "timers s = [t]"
    by (cases "timers s") auto
  let ?s1 = "s\<lparr>timers := filter (\<lambda>t. fst t \<noteq> job) (timers s)\<rparr>"
  have e: "timers ?s1 = []" using ts \<open>fst t = job\<close> by simp
  have inv1: "timer_inv ?s1" using assms e by (simp add: timer_inv_def)
  have f: "fire job s = (case cb of Reveal \<Rightarrow> reveal_current_word ?s1
                          | Advance \<Rightarrow> advance_to_next_word ?s1)"
    using Some t by (simp add: fire_def Let_def)
  show ?thesis
  proof (cases cb)
    case Reveal
    with f reveal_keeps_inv [OF inv1 e] show ?thesis by simp
  next
    case Advance
    with f advance_keeps_inv [OF inv1 e] show ?thesis by simp
  qed
qed

lemma toggle_keeps_inv:
  assumes "timer_inv s"
  shows "\<exists>s'. toggle_pause s = Inr s' \<and> timer_inv s'"
proof (cases "paused s")
  case True
  let ?s1 = "s\<lparr>paused := False, pause_button := pause_text\<rparr>"
  have a: "fst ` set (timers ?s1) \<subseteq> set (pending_jobs ?s1)"
    and b: "words ?s1 = [] \<or> current_index ?s1 < length (words ?s1)"
    using assms by (simp_all add: timer_inv_def)
  from show_establishes_inv [OF a b] True show ?thesis
    by (auto simp: toggle_pause_def)
next
  case False
  have "fst ` set (timers s) \<subseteq> set (pending_jobs s)"
    using assms by (simp add: timer_inv_def)
  then show ?thesis
    using False assms by (simp add: toggle_pause_def cancel_pending_jobs_eq cancel_all timer_inv_def)
qed

lemma update_keeps_inv:
  assumes "timer_inv s"
  shows "\<exists>s'. update_config c s = Inr s' \<and> timer_inv s'"
proof -
  let ?s1 = "apply_topmost_setting (save_config c (s\<lparr>config_data := c\<rparr>))"
  have inv1: "timer_inv ?s1"
    using assms by (simp add: timer_inv_def apply_topmost_setting_def save_config_def)
  show ?thesis
  proof (cases "paused ?s1")
    case True
    then show ?thesis using inv1 by (simp add: update_config_def Let_def)
  next
    case False
    have a: "fst ` set (timers ?s1) \<subseteq> set (pending_jobs ?s1)"
      and b: "words ?s1 = [] \<or> current_index ?s1 < length (words ?s1)"
      using inv1 by (simp_all add: timer_inv_def)
    from show_establishes_inv [OF a b] False show ?thesis
      by (auto simp: update_config_def Let_def)
  qed
qed

lemma load_keeps_inv:
  assumes "timer_inv s"
  shows "\<exists>ok s'. load_words_from_path src s = Inr (ok, s') \<and> timer_inv s'"
proof (cases "load_words_from_csv src")
  case (Inl exc)
  then show ?thesis using assms by (auto simp: load_words_from_path_def timer_inv_def)
next
  case (Inr entries)
  show ?thesis
  proof (cases "entries = []")
    case True
    with Inr show ?thesis using assms by (auto simp: load_words_from_path_def timer_inv_def)
  next
    case False
    let ?s2 = "(shuffle_words (s\<lparr>words := entries\<rparr>))\<lparr>current_index := 0\<rparr>"
    have w: "words ?s2 \<noteq> []" using False by (simp add: shuffle_words_def shuffle_eq_Nil)
    show ?thesis
    proof (cases "paused s")
      case True
      have "timer_inv (?s2\<lparr>word_label := loaded_text, reading_label := [], meaning_label := []\<rparr>)"
        using assms w by (simp add: timer_inv_def shuffle_words_def)
      then show ?thesis
        using Inr False True by (auto simp: load_words_from_path_def Let_def shuffle_words_def)
    next
      case np: False
      have a: "fst ` set (timers ?s2) \<subseteq> set (pending_jobs ?s2)"
        using assms by (simp add: timer_inv_def shuffle_words_def)
      have b: "words ?s2 = [] \<or> current_index ?s2 < length (words ?s2)"
        using w by simp
      from show_establishes_inv [OF a b] obtain s' where
        "show_current_word ?s2 = Inr s'" "timer_inv s'" by blast
      then show ?thesis
        using Inr False np by (auto simp: load_words_from_path_def Let_def shuffle_words_def)
    qed
  qed
qed

lemma step_keeps_inv:
  assumes "timer_inv s"
  shows "\<exists>s'. step e s = Inr s' \<and> timer_inv s'"
proof (cases e)
  case TogglePause
  then show ?thesis using toggle_keeps_inv [OF assms] by simp
next
  case (UpdateConfig c)
  then show ?thesis using update_keeps_inv [OF assms] by simp
next
  case (LoadWords src)
  from load_keeps_inv [OF assms, of src] obtain ok s' where
    "load_words_from_path src s = Inr (ok, s')" "timer_inv s'" by blast
  with LoadWords show ?thesis by simp
next
  case (Fire job)
  then show ?thesis using fire_keeps_inv [OF assms] by simp
qed

lemma run_keeps_inv:
  "timer_inv s \<Longrightarrow> \<exists>s'. run evs s = Inr s' \<and> timer_inv s'"
proof (induction evs arbitrary: s)
  case Nil
  then show ?case by simp
next
  case (Cons e evs)
  from step_keeps_inv [OF Cons.prems] obtain s1 where
    s1: "step e s = Inr s1" "timer_inv s1" by blast
  from Cons.IH [OF s1(2)] s1(1) show ?case by simp
qed

lemma startup_establishes_inv:
  "\<exists>s. startup cfg ex src rnd = Inr s \<and> timer_inv s"
proof -
  let ?loaded = "load_words_from_csv src"
  let ?s = "\<lparr>config_data = cfg,
               words = (case ?loaded of Inl exc \<Rightarrow> [] | Inr entries \<Rightarrow> entries),
               current_index = 0, paused = False, pending_jobs = [], stage = Word,
               word_label = [], reading_label = [], meaning_label = [],
               pause_button = pause_text, topmost = False, timers = [], next_job = 0,
               written_config = (if \<not> ex then Some cfg else None),
               dialogs = (case ?loaded of Inl exc \<Rightarrow> [DefaultLoadFailed exc] | Inr entries \<Rightarrow> []),
               rand = rnd, rand_pos = 0\<rparr>"
  let ?s1 = "shuffle_words ?s"
  let ?s2 = "if words ?s1 = [] then ?s1\<lparr>word_label := no_words_text\<rparr> else ?s1"
  let ?s3 = "apply_topmost_setting ?s2"
  have st: "startup cfg ex src rnd = show_current_word ?s3"
    by (simp add: startup_def Let_def)
  have a: "fst ` set (timers ?s3) \<subseteq> set (pending_jobs ?s3)"
    by (simp add: apply_topmost_setting_def shuffle_words_def)
  have b: "words ?s3 = [] \<or> current_index ?s3 < length (words ?s3)"
    by (simp add: apply_topmost_setting_def shuffle_words_def)
  from show_establishes_inv [OF a b] st show ?thesis by auto
qed

lemma live_pending_le_one:
  assumes "timer_inv s"
  shows "length (filter (\<lambda>j. j \<in> fst ` set (timers s)) (pending_jobs s)) \<le> 1"
proof -
  have d: "distinct (pending_jobs s)" and len: "length (timers s) \<le> 1"
    using assms by (simp_all add: timer_inv_def)
  have "card (fst ` set (timers s)) \<le> 1"
  proof -
    have "card (fst ` set (timers s)) \<le> card (set (timers s))"
      by (rule card_image_le) simp
    also have "\<dots> \<le> length (timers s)" by (rule card_length)
    finally show ?thesis using len by simp
  qed
  moreover have "length (filter (\<lambda>j. j \<in> fst ` set (timers s)) (pending_jobs s)) =
      card ({j. j \<in> fst ` set (timers s)} \<inter> set (pending_jobs s))"
    using d by (rule distinct_length_filter)
  moreover have "card ({j. j \<in> fst ` set (timers s)} \<inter> set (pending_jobs s)) \<le>
      card (fst ` set (timers s))"
    by (rule card_mono) auto
  ultimately show ?thesis by simp
qed

text \<open>
  Claim C1. After startup and any sequence of pause toggles, configuration changes, deck
  imports and timer firings, the application has not raised, at most one callback is queued
  in Tk, at most one handle of \<open>pending_jobs\<close> is still queued, cancelling the pending jobs
  would leave the queue empty (every queued callback is one of the pending jobs, so the
  cancellation at the start of \<open>show_current_word\<close> removes whatever is outstanding), and
  nothing is queued while the engine is paused. \<open>reveal_current_word\<close> does not cancel
  anything itself; it runs only as the callback of the one queued timer, which Tk has taken
  out of the queue by then.
\<close>

theorem at_most_one_timer:
  "\<exists>s. lifetime cfg ex src rnd evs = Inr s \<and>
       length (timers s) \<le> 1 \<and>
       length (filter (\<lambda>j. j \<in> fst ` set (timers s)) (pending_jobs s)) \<le> 1 \<and>
       timers (cancel_pending_jobs s) = [] \<and>
       (paused s \<longrightarrow> timers s = [])"
proof -
  from startup_establishes_inv obtain s0 where
    s0: "startup cfg ex src rnd = Inr s0" "timer_inv s0" by blast
  from run_keeps_inv [OF s0(2)] obtain s where
    s: "run evs s0 = Inr s" "timer_inv s" by blast
  have l: "lifetime cfg ex src rnd evs = Inr s"
    using s0(1) s(1) by (simp add: lifetime_def)
  have c: "timers (cancel_pending_jobs s) = []"
    using s(2) by (simp add: cancel_pending_jobs_eq cancel_all timer_inv_def)
  from l c live_pending_le_one [OF s(2)] s(2) show ?thesis
    by (auto simp: timer_inv_def)
qed

lemma load_neko_source: "load_words_from_csv neko_source = Inr [neko]"
  by (simp add: neko_source_def load_words_from_csv_def required_fields_def dict_row_def
      get_or_empty_def word_key_def reading_key_def meaning_key_def strip_def isspace_def neko_def)

lemma startup_neko:
  "startup DEFAULT_CONFIG True neko_source (\<lambda>k. k) =
     Inr ((sample_app DEFAULT_CONFIG [neko])
            \<lparr>pending_jobs := [0], word_label := [29483], timers := [(0, 3000, Reveal)],
             next_job := 1\<rparr>)"
  by (simp add: startup_def load_neko_source Let_def shuffle_words_def shuffle_def
      apply_topmost_setting_def cfg_get_def DEFAULT_CONFIG_def show_current_word_running
      sample_app_def neko_def)

lemma run_neko:
  "run [Fire 0, Fire 1, TogglePause, TogglePause]
     ((sample_app DEFAULT_CONFIG [neko])
        \<lparr>pending_jobs := [0], word_label := [29483], timers := [(0, 3000, Reveal)],
         next_job := 1\<rparr>) =
   Inr ((sample_app DEFAULT_CONFIG [neko])
          \<lparr>pending_jobs := [3], word_label := [29483], timers := [(3, 3000, Reveal)],
           next_job := 4\<rparr>)"
  by (simp add: sample_app_def fire_def Let_def reveal_current_word_running
      advance_to_next_word_def shuffle_words_def shuffle_def show_current_word_running
      toggle_pause_def cancel_pending_jobs_eq cfg_get_def DEFAULT_CONFIG_def neko_def)

lemma run_neko_paused:
  "run [Fire 0, TogglePause]
     ((sample_app DEFAULT_CONFIG [neko])
        \<lparr>pending_jobs := [0], word_label := [29483], timers := [(0, 3000, Reveal)],
         next_job := 1\<rparr>) =
   Inr ((sample_app DEFAULT_CONFIG [neko])
          \<lparr>paused := True, pending_jobs := [], stage := Meaning, word_label := [29483],
           reading_label := [12397, 12371], meaning_label := [99, 97, 116],
           pause_button := play_text, next_job := 2\<rparr>)"
  by (simp add: sample_app_def fire_def Let_def reveal_current_word_running
      toggle_pause_def cancel_pending_jobs_eq cfg_get_def DEFAULT_CONFIG_def neko_def)

theorem at_most_one_timer_witness:
  "(\<exists>s. lifetime DEFAULT_CONFIG True neko_source (\<lambda>k. k)
          [Fire 0, Fire 1, TogglePause, TogglePause] = Inr s \<and>
       \<not> paused s \<and> timers s = [(3, 3000, Reveal)] \<and> pending_jobs s = [3] \<and>
       length (filter (\<lambda>j. j \<in> fst ` set (timers s)) (pending_jobs s)) \<le> 1 \<and>
       timers (cancel_pending_jobs s) = []) \<and>
   (\<exists>s. lifetime DEFAULT_CONFIG True neko_source (\<lambda>k. k) [Fire 0, TogglePause] = Inr s \<and>
       paused s \<and> stage s = Meaning \<and> timers s = [])"
proof -
  from at_most_one_timer [of DEFAULT_CONFIG True neko_source "\<lambda>k. k"
      "[Fire 0, Fire 1, TogglePause, TogglePause]"]
  obtain s where
    s: "lifetime DEFAULT_CONFIG True neko_source (\<lambda>k. k)
          [Fire 0, Fire 1, TogglePause, TogglePause] = Inr s"
      "length (filter (\<lambda>j. j \<in> fst ` set (timers s)) (pending_jobs s)) \<le> 1"
      "timers (cancel_pending_jobs s) = []"
    by blast
  have "lifetime DEFAULT_CONFIG True neko_source (\<lambda>k. k)
          [Fire 0, Fire 1, TogglePause, TogglePause] =
        Inr ((sample_app DEFAULT_CONFIG [neko])
          \<lparr>pending_jobs := [3], word_label := [29483], timers := [(3, 3000, Reveal)],
           next_job := 4\<rparr>)"
    by (simp only: lifetime_def startup_neko run_neko sum.case)
  with s(1) have e: "s = (sample_app DEFAULT_CONFIG [neko])
          \<lparr>pending_jobs := [3], word_label := [29483], timers := [(3, 3000, Reveal)],
           next_job := 4\<rparr>"
    by simp
  have "\<not> paused s" "timers s = [(3, 3000, Reveal)]" "pending_jobs s = [3]"
    unfolding e by (simp_all add: sample_app_def)
  with s have first: "\<exists>s. lifetime DEFAULT_CONFIG True neko_source (\<lambda>k. k)
          [Fire 0, Fire 1, TogglePause, TogglePause] = Inr s \<and>
       \<not> paused s \<and> timers s = [(3, 3000, Reveal)] \<and> pending_jobs s = [3] \<and>
       length (filter (\<lambda>j. j \<in> fst ` set (timers s)) (pending_jobs s)) \<le> 1 \<and>
       timers (cancel_pending_jobs s) = []"
    by blast
  from at_most_one_timer [of DEFAULT_CONFIG True neko_source "\<lambda>k. k" "[Fire 0, TogglePause]"]
  obtain p where
    p: "lifetime DEFAULT_CONFIG True neko_source (\<lambda>k. k) [Fire 0, TogglePause] = Inr p"
      "paused p \<longrightarrow> timers p = []"
    by blast
  have "lifetime DEFAULT_CONFIG True neko_source (\<lambda>k. k) [Fire 0, TogglePause] =
        Inr ((sample_app DEFAULT_CONFIG [neko])
          \<lparr>paused := True, pending_jobs := [], stage := Meaning, word_label := [29483],
           reading_label := [12397, 12371], meaning_label := [99, 97, 116],
           pause_button := play_text, next_job := 2\<rparr>)"
    by (simp only: lifetime_def startup_neko run_neko_paused sum.case)
  with p(1) have e2: "p = (sample_app DEFAULT_CONFIG [neko])
          \<lparr>paused := True, pending_jobs := [], stage := Meaning, word_label := [29483],
           reading_label := [12397, 12371], meaning_label := [99, 97, 116],
           pause_button := play_text, next_job := 2\<rparr>"
    by simp
  have pp: "paused p" "stage p = Meaning"
    unfolding e2 by (simp_all add: sample_app_def)
  with p(2) have "timers p = []" by blast
  with p(1) pp have second: "\<exists>s. lifetime DEFAULT_CONFIG True neko_source (\<lambda>k. k)
      [Fire 0, TogglePause] = Inr s \<and> paused s \<and> stage s = Meaning \<and> timers s = []"
    by blast
  from first second show ?thesis by blast
qed

section \<open>The empty deck\<close>

lemma step_on_empty_deck:
  assumes "words s = []" and "\<not> successful_load e"
  shows "\<exists>s'. step e s = Inr s' \<and> words s' = [] \<and> next_job s' = next_job s \<and>
           set (timers s') \<subseteq> set (timers s)"
proof (cases e)
  case TogglePause
  then show ?thesis
    using assms(1)
    by (cases "paused s")
      (auto simp: toggle_pause_def show_current_word_empty cancel_pending_jobs_eq)
next
  case (UpdateConfig c)
  then show ?thesis
    using assms(1)
    by (cases "paused s")
      (auto simp: update_config_def Let_def apply_topmost_setting_def save_config_def
        show_current_word_empty)
next
  case (LoadWords src)
  then show ?thesis
    using assms
    by (auto simp: load_words_from_path_def split: sum.splits)
next
  case (Fire job)
  show ?thesis
  proof (cases "find (\<lambda>t. fst t = job) (timers s)")
    case None
    with Fire show ?thesis using assms(1) by (simp add: fire_def)
  next
    case (Some t)
    obtain h d cb where "t = (h, d, cb)" by (cases t)
    with Some Fire show ?thesis
      using assms(1)
      by (cases cb)
        (auto simp: fire_def Let_def reveal_current_word_def advance_to_next_word_def)
  qed
qed

lemma run_on_empty_deck:
  "words s = [] \<Longrightarrow> list_all (\<lambda>e. \<not> successful_load e) evs \<Longrightarrow>
   \<exists>s'. run evs s = Inr s' \<and> words s' = [] \<and> next_job s' = next_job s \<and>
     set (timers s') \<subseteq> set (timers s)"
proof (induction evs arbitrary: s)
  case Nil
  then show ?case by simp
next
  case (Cons e evs)
  from Cons.prems have ne: "\<not> successful_load e" and rest: "list_all (\<lambda>e. \<not> successful_load e) evs"
    by simp_all
  from step_on_empty_deck [OF Cons.prems(1) ne] obtain s1 where
    s1: "step e s = Inr s1" "words s1 = []" "next_job s1 = next_job s"
      "set (timers s1) \<subseteq> set (timers s)"
    by blast
  from Cons.IH [OF s1(2) rest] obtain s' where
    s': "run evs s1 = Inr s'" "words s' = []" "next_job s' = next_job s1"
      "set (timers s') \<subseteq> set (timers s1)"
    by blast
  have "run (e # evs) s = Inr s'" using s1(1) s'(1) by simp
  moreover have "next_job s' = next_job s" using s1(3) s'(3) by simp
  moreover have "set (timers s') \<subseteq> set (timers s)" using s1(4) s'(4) by blast
  ultimately show ?case using s'(2) by blast
qed

text \<open>
  Claim C6. With an empty deck \<open>show_current_word\<close> cancels the pending jobs, shows the
  empty-deck message with blank reading and meaning, and queues nothing;
  \<open>reveal_current_word\<close> and \<open>advance_to_next_word\<close> change nothing. The state is
  terminal: whatever events follow, as long as none of them is a successful import, the
  deck stays empty, no handle is ever issued and the timer queue only shrinks.
\<close>

theorem empty_deck_schedules_nothing:
  assumes "words s = []"
  shows "show_current_word s =
           Inr (s\<lparr>timers := filter (\<lambda>t. fst t \<notin> set (pending_jobs s)) (timers s),
                  pending_jobs := [], word_label := no_words_text, reading_label := [],
                  meaning_label := []\<rparr>) \<and>
         reveal_current_word s = Inr s \<and>
         advance_to_next_word s = Inr s \<and>
         (list_all (\<lambda>e. \<not> successful_load e) evs \<longrightarrow>
            (\<exists>s'. run evs s = Inr s' \<and> words s' = [] \<and> next_job s' = next_job s \<and>
               set (timers s') \<subseteq> set (timers s)))"
proof -
  have "show_current_word s =
           Inr (s\<lparr>timers := filter (\<lambda>t. fst t \<notin> set (pending_jobs s)) (timers s),
                  pending_jobs := [], word_label := no_words_text, reading_label := [],
                  meaning_label := []\<rparr>)"
    using assms by (rule show_current_word_empty)
  moreover have "reveal_current_word s = Inr s"
    using assms by (simp add: reveal_current_word_def)
  moreover have "advance_to_next_word s = Inr s"
    using assms by (simp add: advance_to_next_word_def)
  ultimately show ?thesis
    using run_on_empty_deck [OF assms, of evs] by blast
qed

theorem empty_deck_schedules_nothing_witness:
  "words (sample_app DEFAULT_CONFIG []) = [] \<and>
   list_all (\<lambda>e. \<not> successful_load e) [TogglePause, LoadWords None, Fire 0, TogglePause] \<and>
   show_current_word (sample_app DEFAULT_CONFIG []) =
     Inr ((sample_app DEFAULT_CONFIG [])\<lparr>word_label := no_words_text\<rparr>) \<and>
   reveal_current_word (sample_app DEFAULT_CONFIG []) = Inr (sample_app DEFAULT_CONFIG []) \<and>
   advance_to_next_word (sample_app DEFAULT_CONFIG []) = Inr (sample_app DEFAULT_CONFIG []) \<and>
   (\<exists>s'. run [TogglePause, LoadWords None, Fire 0, TogglePause] (sample_app DEFAULT_CONFIG []) = Inr s' \<and>
      words s' = [] \<and> next_job s' = 0 \<and> timers s' = [])"
proof -
  let ?s = "sample_app DEFAULT_CONFIG []"
  let ?evs = "[TogglePause, LoadWords None, Fire 0, TogglePause]"
  have h: "words ?s = []" by (simp add: sample_app_def)
  have l: "list_all (\<lambda>e. \<not> successful_load e) ?evs"
    by (simp add: load_words_from_csv_def)
  from empty_deck_schedules_nothing [OF h, of ?evs] l obtain s' where
    a: "show_current_word ?s =
           Inr (?s\<lparr>timers := filter (\<lambda>t. fst t \<notin> set (pending_jobs ?s)) (timers ?s),
                  pending_jobs := [], word_label := no_words_text, reading_label := [],
                  meaning_label := []\<rparr>)"
      "reveal_current_word ?s = Inr ?s" "advance_to_next_word ?s = Inr ?s"
    and r: "run ?evs ?s = Inr s'" "words s' = []" "next_job s' = next_job ?s"
      "set (timers s') \<subseteq> set (timers ?s)"
    by blast
  have "show_current_word ?s = Inr (?s\<lparr>word_label := no_words_text\<rparr>)"
    using a(1) by (simp add: sample_app_def)
  moreover have "next_job s' = 0" using r(3) by (simp add: sample_app_def)
  moreover have "timers s' = []" using r(4) by (simp add: sample_app_def)
  ultimately show ?thesis using h l a(2,3) r(1,2) by blast
qed

section \<open>Rows and entries\<close>

lemma strip_Nil: "strip [] = []"
  by (simp add: strip_def)

lemma fold_restval:
  "fold (\<lambda>k m. m(k \<mapsto> None)) ks m k' = (if k' \<in> set ks then Some None else m k')"
  by (induction ks arbitrary: m) auto

lemma column_blank_row: "column fieldnames [] k = []"
  by (simp add: column_def dict_row_def get_or_empty_def fold_restval Let_def)

lemma read_rows_by_spec:
  "read_rows fieldnames (map Fields rows) acc = Inr (acc @ entries_by_spec fieldnames rows)"
proof (induction rows arbitrary: acc)
  case Nil
  show ?case by (simp add: entries_by_spec_def)
next
  case (Cons row rows)
  show ?case
  proof (cases "row = []")
    case True
    then show ?thesis
      using Cons.IH [of acc] by (simp add: entries_by_spec_def column_blank_row strip_Nil)
  next
    case False
    show ?thesis
    proof (cases "strip (column fieldnames row word_key) = []")
      case True
      then show ?thesis
        using False Cons.IH [of acc] by (simp add: entries_by_spec_def column_def Let_def)
    next
      case nonempty: False
      then show ?thesis
        using False
          Cons.IH [of "acc @ [\<lparr>word = strip (column fieldnames row word_key),
                  reading = strip (column fieldnames row reading_key),
                  meaning = strip (column fieldnames row meaning_key)\<rparr>]"]
        by (simp add: entries_by_spec_def column_def Let_def)
    qed
  qed
qed

lemma dropWhile_strip: "dropWhile isspace (strip s) = strip s"
proof (cases "strip s")
  case Nil
  then show ?thesis by simp
next
  case (Cons c cs)
  let ?t = "dropWhile isspace s"
  have "strip s = rev (drop (length (takeWhile isspace (rev ?t))) (rev ?t))"
    by (simp add: strip_def dropWhile_eq_drop)
  then have pre: "strip s = take (length ?t - length (takeWhile isspace (rev ?t))) ?t"
    by (simp add: rev_drop)
  with Cons have "?t \<noteq> []" by (metis take_Nil list.distinct(1))
  then have "\<not> isspace (hd ?t)" by (rule hd_dropWhile)
  moreover have "hd (strip s) = hd ?t"
    using pre Cons by (metis hd_take list.distinct(1) take_eq_Nil gr0I)
  ultimately have "\<not> isspace c" using Cons by simp
  then show ?thesis using Cons by simp
qed

lemma strip_strip: "strip (strip s) = strip s"
proof -
  have "strip (strip s) = rev (dropWhile isspace (rev (strip s)))"
    by (simp add: strip_def [of "strip s"] dropWhile_strip)
  also have "\<dots> = rev (dropWhile isspace (dropWhile isspace (rev (dropWhile isspace s))))"
    by (simp add: strip_def)
  also have "\<dots> = strip s"
    by (simp add: strip_def dropWhile_idem)
  finally show ?thesis .
qed

text \<open>
  Claim C8. A source whose header lacks one of \<open>word\<close>, \<open>reading\<close>, \<open>meaning\<close>, or
  that has no header at all, is rejected with the header error whatever follows the header,
  even if reading the rows would raise. For an accepted source the loop returns the deck
  the specification describes: the rows whose word is empty after trimming are dropped, the
  others become entries in order, and every entry has a non-empty word and trimmed fields.
\<close>

theorem deck_source_loading:
  "(\<not> required_fields \<subseteq> set fieldnames \<longrightarrow>
      load_words_from_csv (Some (Fields fieldnames # rest)) = Inl (ValueError header_error_text)) \<and>
   load_words_from_csv (Some []) = Inl (ValueError header_error_text) \<and>
   (required_fields \<subseteq> set fieldnames \<longrightarrow>
      load_words_from_csv (Some (Fields fieldnames # map Fields rows)) =
        Inr (entries_by_spec fieldnames rows) \<and>
      (\<forall>e\<in>set (entries_by_spec fieldnames rows).
         word e \<noteq> [] \<and> strip (word e) = word e \<and> strip (reading e) = reading e \<and>
         strip (meaning e) = meaning e))"
proof -
  have a: "\<not> required_fields \<subseteq> set fieldnames \<longrightarrow>
      load_words_from_csv (Some (Fields fieldnames # rest)) = Inl (ValueError header_error_text)"
    by (simp add: load_words_from_csv_def)
  have b: "load_words_from_csv (Some []) = Inl (ValueError header_error_text)"
    by (simp add: load_words_from_csv_def required_fields_def)
  have c: "required_fields \<subseteq> set fieldnames \<longrightarrow>
      load_words_from_csv (Some (Fields fieldnames # map Fields rows)) =
        Inr (entries_by_spec fieldnames rows)"
    using read_rows_by_spec [of fieldnames rows "[]"] by (simp add: load_words_from_csv_def)
  have d: "\<forall>e\<in>set (entries_by_spec fieldnames rows).
         word e \<noteq> [] \<and> strip (word e) = word e \<and> strip (reading e) = reading e \<and>
         strip (meaning e) = meaning e"
    by (auto simp: entries_by_spec_def strip_strip)
  from a b c d show ?thesis by blast
qed

theorem deck_source_loading_witness:
  "\<not> required_fields \<subseteq> set [word_key, meaning_key] \<and>
   load_words_from_csv (Some (Fields [word_key, meaning_key] # [Raises])) =
     Inl (ValueError header_error_text) \<and>
   required_fields \<subseteq> set [meaning_key, word_key, reading_key] \<and>
   load_words_from_csv
     (Some (Fields [meaning_key, word_key, reading_key] #
        map Fields [[[99, 97, 116, 32], [32, 29483], [12397, 12371]], [[120], [32, 9]], []])) =
     Inr [neko] \<and>
   word neko \<noteq> [] \<and> strip (word neko) = word neko \<and> strip (reading neko) = reading neko \<and>
   strip (meaning neko) = meaning neko"
proof -
  have h1: "\<not> required_fields \<subseteq> set [word_key, meaning_key]"
    by (simp add: required_fields_def word_key_def reading_key_def meaning_key_def)
  have h2: "required_fields \<subseteq> set [meaning_key, word_key, reading_key]"
    by (simp add: required_fields_def)
  have e: "entries_by_spec [meaning_key, word_key, reading_key]
      [[[99, 97, 116, 32], [32, 29483], [12397, 12371]], [[120], [32, 9]], []] = [neko]"
    by (simp add: entries_by_spec_def column_def dict_row_def get_or_empty_def strip_def
        isspace_def word_key_def reading_key_def meaning_key_def neko_def)
  from deck_source_loading [of "[word_key, meaning_key]" "[Raises]"] h1
  have a: "load_words_from_csv (Some (Fields [word_key, meaning_key] # [Raises])) =
     Inl (ValueError header_error_text)"
    by blast
  from deck_source_loading [of "[meaning_key, word_key, reading_key]" _
      "[[[99, 97, 116, 32], [32, 29483], [12397, 12371]], [[120], [32, 9]], []]"] h2
  have b: "load_words_from_csv
     (Some (Fields [meaning_key, word_key, reading_key] #
        map Fields [[[99, 97, 116, 32], [32, 29483], [12397, 12371]], [[120], [32, 9]], []])) =
     Inr [neko]"
    and c: "\<forall>e\<in>set [neko]. word e \<noteq> [] \<and> strip (word e) = word e \<and>
      strip (reading e) = reading e \<and> strip (meaning e) = meaning e"
    unfolding e by blast+
  from c have d: "word neko \<noteq> [] \<and> strip (word neko) = word neko \<and>
      strip (reading neko) = reading neko \<and> strip (meaning neko) = meaning neko"
    by simp
  from h1 h2 a b d show ?thesis by blast
qed

section \<open>Loading and validating the configuration\<close>


lemma load_config_complete:
  "\<exists>a b t. load_config loads str_int file =
     [ShowMeaningTimer \<mapsto> IntV a, NextWordTimer \<mapsto> IntV b, AlwaysOnTop \<mapsto> BoolV t]"
  by (auto simp: load_config_def DEFAULT_CONFIG_def split: option.splits json.splits)

text \<open>
  Claim C9, as the code has it. \<open>load_config\<close> is total: it always returns a
  configuration with all three keys, an integer for each timer and a boolean for
  \<open>alwaysOnTop\<close>. The default configuration is returned as a whole, all three fields
  together, when the file is missing or unreadable, when the text does not parse, when the
  parsed value is not an object, and when \<open>int\<close> raises on either timer field. When both
  timer fields convert, the stored configuration is returned: a timer of another type that
  \<open>int\<close> converts (a boolean, a finite float, a numeric string) is accepted, and
  \<open>alwaysOnTop\<close> is \<open>bool\<close> of whatever is stored, which never raises and so never
  causes a fallback.
\<close>

theorem load_config_total_and_atomic:
  "(\<exists>a b t. load_config loads str_int file =
      [ShowMeaningTimer \<mapsto> IntV a, NextWordTimer \<mapsto> IntV b, AlwaysOnTop \<mapsto> BoolV t]) \<and>
   load_config loads str_int None = DEFAULT_CONFIG \<and>
   load_config loads str_int (Some None) = DEFAULT_CONFIG \<and>
   (loads content = None \<longrightarrow> load_config loads str_int (Some (Some content)) = DEFAULT_CONFIG) \<and>
   (loads content = Some v \<and> (\<forall>data. v \<noteq> JObj data) \<longrightarrow>
      load_config loads str_int (Some (Some content)) = DEFAULT_CONFIG) \<and>
   (loads content = Some (JObj data) \<and>
    (json_int str_int (json_get data show_meaning_timer_key (JInt 3)) = None \<or>
     json_int str_int (json_get data next_word_timer_key (JInt 5)) = None) \<longrightarrow>
      load_config loads str_int (Some (Some content)) = DEFAULT_CONFIG) \<and>
   (loads content = Some (JObj data) \<and>
    json_int str_int (json_get data show_meaning_timer_key (JInt 3)) = Some a \<and>
    json_int str_int (json_get data next_word_timer_key (JInt 5)) = Some b \<longrightarrow>
      load_config loads str_int (Some (Some content)) =
        [ShowMeaningTimer \<mapsto> IntV a, NextWordTimer \<mapsto> IntV b,
         AlwaysOnTop \<mapsto> BoolV (json_bool (json_get data always_on_top_key (JBool True)))])"
proof -
  have 1: "\<exists>a b t. load_config loads str_int file =
      [ShowMeaningTimer \<mapsto> IntV a, NextWordTimer \<mapsto> IntV b, AlwaysOnTop \<mapsto> BoolV t]"
    by (rule load_config_complete)
  have 2: "load_config loads str_int None = DEFAULT_CONFIG"
    "load_config loads str_int (Some None) = DEFAULT_CONFIG"
    by (simp_all add: load_config_def)
  have 3: "loads content = None \<longrightarrow> load_config loads str_int (Some (Some content)) = DEFAULT_CONFIG"
    by (simp add: load_config_def)
  have 4: "loads content = Some v \<and> (\<forall>data. v \<noteq> JObj data) \<longrightarrow>
      load_config loads str_int (Some (Some content)) = DEFAULT_CONFIG"
    by (cases v) (simp_all add: load_config_def)
  have 5: "loads content = Some (JObj data) \<and>
    (json_int str_int (json_get data show_meaning_timer_key (JInt 3)) = None \<or>
     json_int str_int (json_get data next_word_timer_key (JInt 5)) = None) \<longrightarrow>
      load_config loads str_int (Some (Some content)) = DEFAULT_CONFIG"
    by (auto simp: load_config_def split: option.splits)
  have 6: "loads content = Some (JObj data) \<and>
    json_int str_int (json_get data show_meaning_timer_key (JInt 3)) = Some a \<and>
    json_int str_int (json_get data next_word_timer_key (JInt 5)) = Some b \<longrightarrow>
      load_config loads str_int (Some (Some content)) =
        [ShowMeaningTimer \<mapsto> IntV a, NextWordTimer \<mapsto> IntV b,
         AlwaysOnTop \<mapsto> BoolV (json_bool (json_get data always_on_top_key (JBool True)))]"
    by (simp add: load_config_def)
  from 1 2 3 4 5 6 show ?thesis by blast
qed

theorem load_config_total_and_atomic_witness:
  "json_int ascii_int
     (json_get [(show_meaning_timer_key, JInt 10), (next_word_timer_key, JNull),
                (always_on_top_key, JBool False)] next_word_timer_key (JInt 5)) = None \<and>
   load_config
     (\<lambda>content. Some (JObj [(show_meaning_timer_key, JInt 10), (next_word_timer_key, JNull),
                          (always_on_top_key, JBool False)]))
     ascii_int (Some (Some [])) = DEFAULT_CONFIG \<and>
   load_config (\<lambda>content. None) ascii_int (Some (Some [123])) = DEFAULT_CONFIG \<and>
   load_config (\<lambda>content. Some (JArr [])) ascii_int (Some (Some [91, 93])) = DEFAULT_CONFIG \<and>
   load_config
     (\<lambda>content. Some (JObj [(show_meaning_timer_key, JStr [45, 55]), (always_on_top_key, JInt 0)]))
     ascii_int (Some (Some [])) =
     [ShowMeaningTimer \<mapsto> IntV (- 7), NextWordTimer \<mapsto> IntV 5, AlwaysOnTop \<mapsto> BoolV False]"
proof -
  let ?data = "[(show_meaning_timer_key, JInt 10), (next_word_timer_key, JNull),
                (always_on_top_key, JBool False)]"
  let ?good = "[(show_meaning_timer_key, JStr [45, 55]), (always_on_top_key, JInt 0)]"
  have h: "json_int ascii_int (json_get ?data next_word_timer_key (JInt 5)) = None"
    by (simp add: json_get_def show_meaning_timer_key_def next_word_timer_key_def
        always_on_top_key_def)
  have g1: "json_int ascii_int (json_get ?good show_meaning_timer_key (JInt 3)) = Some (- 7)"
    by (simp add: json_get_def show_meaning_timer_key_def next_word_timer_key_def
        always_on_top_key_def ascii_int_def)
  have g2: "json_int ascii_int (json_get ?good next_word_timer_key (JInt 5)) = Some 5"
    by (simp add: json_get_def show_meaning_timer_key_def next_word_timer_key_def
        always_on_top_key_def)
  have g3: "json_bool (json_get ?good always_on_top_key (JBool True)) = False"
    by (simp add: json_get_def show_meaning_timer_key_def next_word_timer_key_def
        always_on_top_key_def)
  have "load_config (\<lambda>content. Some (JObj ?data)) ascii_int (Some (Some [])) = DEFAULT_CONFIG"
    using load_config_total_and_atomic
      [where loads = "\<lambda>content. Some (JObj ?data)" and str_int = ascii_int and content = "[]"
        and data = ?data] h
    by simp
  moreover have "load_config (\<lambda>content. None) ascii_int (Some (Some [123])) = DEFAULT_CONFIG"
    using load_config_total_and_atomic
      [where loads = "\<lambda>content. None" and str_int = ascii_int and content = "[123]"]
    by simp
  moreover have "load_config (\<lambda>content. Some (JArr [])) ascii_int (Some (Some [91, 93])) =
      DEFAULT_CONFIG"
    using load_config_total_and_atomic
      [where loads = "\<lambda>content. Some (JArr [])" and str_int = ascii_int and content = "[91, 93]"
        and v = "JArr []"]
    by simp
  moreover have "load_config (\<lambda>content. Some (JObj ?good)) ascii_int (Some (Some [])) =
     [ShowMeaningTimer \<mapsto> IntV (- 7), NextWordTimer \<mapsto> IntV 5, AlwaysOnTop \<mapsto> BoolV False]"
    using load_config_total_and_atomic
      [where loads = "\<lambda>content. Some (JObj ?good)" and str_int = ascii_int and content = "[]"
        and data = ?good and a = "- 7" and b = 5] g1 g2 g3
    by simp
  ultimately show ?thesis using h by blast
qed

text \<open>
  Claim C9 as stated, that a single field of the wrong type makes the whole configuration
  the default, fails: with \<open>showMeaningTimer\<close> 10 and the string \<open>no\<close> for
  \<open>alwaysOnTop\<close> the result keeps the timer 10 and has \<open>alwaysOnTop\<close> true; with the
  string \<open>7\<close> and the boolean \<open>true\<close> for the two timers the result has the timers 7
  and 1. Neither result is the default configuration.
\<close>

theorem load_config_wrong_type_counterexample:
  "load_config
     (loads_as (Some (JObj [(show_meaning_timer_key, JInt 10), (always_on_top_key, JStr [110, 111])])))
     ascii_int (Some (Some [])) ShowMeaningTimer = Some (IntV 10) \<and>
   load_config
     (loads_as (Some (JObj [(show_meaning_timer_key, JInt 10), (always_on_top_key, JStr [110, 111])])))
     ascii_int (Some (Some [])) AlwaysOnTop = Some (BoolV True) \<and>
   load_config
     (loads_as (Some (JObj [(show_meaning_timer_key, JInt 10), (always_on_top_key, JStr [110, 111])])))
     ascii_int (Some (Some [])) \<noteq> DEFAULT_CONFIG \<and>
   load_config
     (loads_as (Some (JObj [(show_meaning_timer_key, JStr [55]), (next_word_timer_key, JBool True)])))
     ascii_int (Some (Some [])) ShowMeaningTimer = Some (IntV 7) \<and>
   load_config
     (loads_as (Some (JObj [(show_meaning_timer_key, JStr [55]), (next_word_timer_key, JBool True)])))
     ascii_int (Some (Some [])) NextWordTimer = Some (IntV 1) \<and>
   load_config
     (loads_as (Some (JObj [(show_meaning_timer_key, JStr [55]), (next_word_timer_key, JBool True)])))
     ascii_int (Some (Some [])) \<noteq> DEFAULT_CONFIG"
proof -
  let ?c1 = "load_config
     (loads_as (Some (JObj [(show_meaning_timer_key, JInt 10), (always_on_top_key, JStr [110, 111])])))
     ascii_int (Some (Some []))"
  let ?c2 = "load_config
     (loads_as (Some (JObj [(show_meaning_timer_key, JStr [55]), (next_word_timer_key, JBool True)])))
     ascii_int (Some (Some []))"
  have a: "?c1 ShowMeaningTimer = Some (IntV 10)" and b: "?c1 AlwaysOnTop = Some (BoolV True)"
    by (simp_all add: load_config_def loads_as_def json_get_def show_meaning_timer_key_def
        next_word_timer_key_def always_on_top_key_def)
  have c: "?c2 ShowMeaningTimer = Some (IntV 7)" and d: "?c2 NextWordTimer = Some (IntV 1)"
    by (simp_all add: load_config_def loads_as_def json_get_def show_meaning_timer_key_def
        next_word_timer_key_def always_on_top_key_def ascii_int_def)
  have e: "?c1 \<noteq> DEFAULT_CONFIG"
  proof
    assume "?c1 = DEFAULT_CONFIG"
    then have "?c1 ShowMeaningTimer = DEFAULT_CONFIG ShowMeaningTimer" by simp
    with a show False by (simp add: DEFAULT_CONFIG_def)
  qed
  have f: "?c2 \<noteq> DEFAULT_CONFIG"
  proof
    assume "?c2 = DEFAULT_CONFIG"
    then have "?c2 ShowMeaningTimer = DEFAULT_CONFIG ShowMeaningTimer" by simp
    with c show False by (simp add: DEFAULT_CONFIG_def)
  qed
  from a b c d e f show ?thesis by blast
qed




end
